theory Spec2Isabelle
  imports Main
begin

section \<open>Domain objects of the server collaborator\<close>

text \<open>
  The application (\<^verbatim>\<open>src/sendspin_gui/app.py\<close>) holds references to live objects of the
  server library: one server, its clients, and the groups the clients point to.  Python
  references never dangle, so every object store is a total function from references
  (natural numbers) to objects, and a shared object is shared because two places hold
  the same reference.
\<close>

text \<open>An enum member carries its \<^verbatim>\<open>.value\<close>; a playback state carries what \<^verbatim>\<open>str()\<close>
  prints for it; an exception carries what \<^verbatim>\<open>str(error)\<close> prints for it.\<close>

datatype role = Role (rvalue: string)

datatype playback_state = PlaybackState (state_str: string)

datatype exn = Exn (exn_str: string)

text \<open>An unsubscribe callable, as \<^verbatim>\<open>add_event_listener\<close> returns it: it remembers the
  object it was registered on and the registration it removes.\<close>

datatype token = ServerTok nat nat | ClientTok nat nat | GroupTok nat nat

record server_obj =
  server_id :: string
  server_name :: string
  clients :: "nat list"
  server_event_cbs :: "nat list"

record client_obj =
  client_id :: string
  name :: string
  roles :: "role list"
  group :: "nat option"
  client_event_cbs :: "nat list"

record group_obj =
  group_id :: string
  group_name :: string
  state :: playback_state
  volume :: int
  muted :: bool
  group_clients :: "nat list"
  group_event_cbs :: "nat list"

section \<open>What the panels are given\<close>

text \<open>The dictionaries \<^verbatim>\<open>_refresh_clients\<close> and \<^verbatim>\<open>_refresh_groups\<close> build, key by key.\<close>

record client_data =
  cd_id :: string
  cd_name :: string
  cd_roles :: "string list"
  cd_group_id :: "string option"

record group_data =
  gd_id :: string
  gd_name :: string
  gd_state :: string
  gd_volume :: int
  gd_muted :: bool
  gd_clients :: "string list"

section \<open>The state the application runs in\<close>

text \<open>
  One record holds the object stores of the server library, the inputs the program reads
  from outside (the clock, the attributes the library gives a freshly constructed group),
  the fields of \<^verbatim>\<open>SendspinGUIApp\<close> and what its panels currently show.
  \<^verbatim>\<open>unsub_calls\<close> is the trace of unsubscribe callables that have been called.
\<close>

record world =
  servers :: "nat \<Rightarrow> server_obj"
  client_objs :: "nat \<Rightarrow> client_obj"
  group_objs :: "nat \<Rightarrow> group_obj"
  next_ref :: nat
  next_cb :: nat
  group_template :: "nat \<Rightarrow> group_obj"
  unsub_calls :: "token list"
  clock :: "nat \<Rightarrow> string"
  ticks :: nat
  server :: "nat option"
  event_unsubscribers :: "token list"
  server_state :: bool
  clients_panel :: "client_data list"
  groups_panel :: "group_data list"
  event_log :: "(string \<times> string) list"
  status_label :: string

section \<open>Formatting\<close>

text \<open>Decimal rendering of an integer inside an f-string.\<close>

fun str_nat :: "nat \<Rightarrow> string" where
  "str_nat n = (if n < 10 then [''0123456789'' ! n] else str_nat (n div 10) @ [''0123456789'' ! (n mod 10)])"

definition str_int :: "int \<Rightarrow> string" where
  "str_int i = (if i < 0 then CHR ''-'' # str_nat (nat (- i)) else str_nat (nat i))"

section \<open>The panels and the event log\<close>

text \<open>Modelled from the spec: the widgets \<^verbatim>\<open>ServerPanel\<close>, \<^verbatim>\<open>ClientsPanel\<close>,
  \<^verbatim>\<open>GroupsPanel\<close> and \<^verbatim>\<open>EventLog\<close> (components/*.py) are not among the sources.
  The spec gives them as a boolean running-state, a live client list, a live group list
  that a refresh replaces wholesale or clears to empty, and a leveled event-log append
  operation; each is the value last handed to it.\<close>

definition set_server_state :: "bool \<Rightarrow> world \<Rightarrow> world" where
  "set_server_state running w = w\<lparr>server_state := running\<rparr>"

definition clients_panel_clear :: "world \<Rightarrow> world" where
  "clients_panel_clear w = w\<lparr>clients_panel := []\<rparr>"

definition update_clients :: "client_data list \<Rightarrow> world \<Rightarrow> world" where
  "update_clients clients_data w = w\<lparr>clients_panel := clients_data\<rparr>"

definition groups_panel_clear :: "world \<Rightarrow> world" where
  "groups_panel_clear w = w\<lparr>groups_panel := []\<rparr>"

definition update_groups :: "group_data list \<Rightarrow> world \<Rightarrow> world" where
  "update_groups groups_data w = w\<lparr>groups_panel := groups_data\<rparr>"

definition add_event :: "string \<Rightarrow> string \<Rightarrow> world \<Rightarrow> world" where
  "add_event line level w = w\<lparr>event_log := event_log w @ [(line, level)]\<rparr>"

text \<open>\<^verbatim>\<open>_log_event\<close>: one reading of the clock, already formatted as
  \<^verbatim>\<open>%H:%M:%S.mmm\<close>, is put in brackets before the message.\<close>

definition log_event :: "string \<Rightarrow> string \<Rightarrow> world \<Rightarrow> world" where
  "log_event message level w =
     (let timestamp = clock w (ticks w);
          w1 = w\<lparr>ticks := Suc (ticks w)\<rparr>
      in add_event (''['' @ timestamp @ ''] '' @ message) level w1)"

definition update_status :: "string \<Rightarrow> world \<Rightarrow> world" where
  "update_status message w = w\<lparr>status_label := message\<rparr>"

section \<open>Event subscription\<close>

text \<open>Modelled from the spec: \<^verbatim>\<open>add_event_listener\<close> of the server library is not among
  the sources.  Spec 4.3: subscribing returns an unsubscribe token and does not
  deduplicate; spec 3: invoking a token has an effect only the first time and is safe
  afterwards.  Each registration gets a fresh number in the object's callback list; the
  token removes that number if it is still there.\<close>

definition server_add_event_listener :: "nat \<Rightarrow> world \<Rightarrow> token \<times> world" where
  "server_add_event_listener s w =
     (ServerTok s (next_cb w),
      w\<lparr>servers := (servers w)(s := (servers w s)\<lparr>server_event_cbs := server_event_cbs (servers w s) @ [next_cb w]\<rparr>),
        next_cb := Suc (next_cb w)\<rparr>)"

definition client_add_event_listener :: "nat \<Rightarrow> world \<Rightarrow> token \<times> world" where
  "client_add_event_listener c w =
     (ClientTok c (next_cb w),
      w\<lparr>client_objs := (client_objs w)(c := (client_objs w c)\<lparr>client_event_cbs := client_event_cbs (client_objs w c) @ [next_cb w]\<rparr>),
        next_cb := Suc (next_cb w)\<rparr>)"

definition group_add_event_listener :: "nat \<Rightarrow> world \<Rightarrow> token \<times> world" where
  "group_add_event_listener g w =
     (GroupTok g (next_cb w),
      w\<lparr>group_objs := (group_objs w)(g := (group_objs w g)\<lparr>group_event_cbs := group_event_cbs (group_objs w g) @ [next_cb w]\<rparr>),
        next_cb := Suc (next_cb w)\<rparr>)"

fun invoke_unsub :: "token \<Rightarrow> world \<Rightarrow> world" where
  "invoke_unsub (ServerTok s k) w =
     w\<lparr>servers := (servers w)(s := (servers w s)\<lparr>server_event_cbs := remove1 k (server_event_cbs (servers w s))\<rparr>),
       unsub_calls := unsub_calls w @ [ServerTok s k]\<rparr>"
| "invoke_unsub (ClientTok c k) w =
     w\<lparr>client_objs := (client_objs w)(c := (client_objs w c)\<lparr>client_event_cbs := remove1 k (client_event_cbs (client_objs w c))\<rparr>),
       unsub_calls := unsub_calls w @ [ClientTok c k]\<rparr>"
| "invoke_unsub (GroupTok g k) w =
     w\<lparr>group_objs := (group_objs w)(g := (group_objs w g)\<lparr>group_event_cbs := remove1 k (group_event_cbs (group_objs w g))\<rparr>),
       unsub_calls := unsub_calls w @ [GroupTok g k]\<rparr>"

section \<open>The stream panel\<close>

text \<open>What an entry widget holds is a Python \<^verbatim>\<open>str\<close>: a sequence of Unicode code points.
  Trimming looks at code points beyond the byte range, so the text of the stream panel
  is a list of code points; \<^verbatim>\<open>code_points\<close> gives the code points of an ASCII literal.\<close>

type_synonym unicode = "nat list"

definition code_points :: "string \<Rightarrow> unicode" where
  "code_points s = map of_char s"

text \<open>\<^verbatim>\<open>str.strip()\<close> with no argument removes, at both ends, the code points that
  \<^verbatim>\<open>str.isspace\<close> accepts.  The interpreter decides that by a fixed case list, copied
  here case by case.\<close>

definition isspace :: "nat \<Rightarrow> bool" where
  "isspace ch = (ch \<in> set [0x0009, 0x000A, 0x000B, 0x000C, 0x000D,
                            0x001C, 0x001D, 0x001E, 0x001F,
                            0x0020, 0x0085, 0x00A0, 0x1680,
                            0x2000, 0x2001, 0x2002, 0x2003, 0x2004, 0x2005,
                            0x2006, 0x2007, 0x2008, 0x2009, 0x200A,
                            0x2028, 0x2029, 0x202F, 0x205F, 0x3000])"

definition strip :: "unicode \<Rightarrow> unicode" where
  "strip s = rev (dropWhile isspace (rev (dropWhile isspace s)))"

text \<open>\<^verbatim>\<open>StreamPanel._stream_file\<close> (components/stream_panel.py).  The two entry widgets
  are read as text.  \<^verbatim>\<open>path_exists\<close> is what \<^verbatim>\<open>Path(file_path).exists()\<close> does for a
  path: answer true or false, or raise (it lets an \<^verbatim>\<open>OSError\<close> through unless the error
  says the path is missing).  The method has no handler, so a raise leaves it.  The
  result is the exception that left the method, or else the call made to
  \<^verbatim>\<open>on_stream_file\<close>, if any.\<close>

definition stream_file ::
  "(unicode \<Rightarrow> exn + bool) \<Rightarrow> unicode \<Rightarrow> unicode \<Rightarrow> exn + (unicode \<times> unicode) option" where
  "stream_file path_exists file_entry file_group_entry =
     (let file_path = strip file_entry;
          group_id = (if strip file_group_entry = [] then code_points ''all'' else strip file_group_entry)
      in if file_path = [] then Inr None
         else (case path_exists file_path of
                 Inl e \<Rightarrow> Inl e
               | Inr found \<Rightarrow> if \<not> found then Inr None else Inr (Some (file_path, group_id))))"

text \<open>Two file systems: one where a name of more than 255 code points makes the check
  raise and nothing exists, and one that holds the single file \<^verbatim>\<open>a.wav\<close>.\<close>

definition long_name_fs :: "unicode \<Rightarrow> exn + bool" where
  "long_name_fs p = (if 255 < length p then Inl (Exn ''[Errno 36] File name too long'') else Inr False)"

definition one_file_fs :: "unicode \<Rightarrow> exn + bool" where
  "one_file_fs p = Inr (p = code_points ''a.wav'')"

section \<open>The task bridge\<close>

text \<open>Modelled from the spec: \<^verbatim>\<open>AsyncBridge.run_coroutine\<close> (utils/async_bridge.py) is
  not among the sources.  Spec 4.1: a submission is a deferred computation and a
  completion callback taking (result, error); the work is run on the worker and the
  callback is then called with what it produced.  A coroutine is a function on the
  world that returns an exception or a result together with the world it leaves (what
  it changed before raising stays changed).  Every coroutine of the application returns
  \<^verbatim>\<open>None\<close>, so the result is the unit value and the error is an optional exception.
  This is one submission run to completion; no other UI action is interleaved.\<close>

definition run_coroutine ::
  "(world \<Rightarrow> (exn + unit) \<times> world) \<Rightarrow> (unit \<Rightarrow> exn option \<Rightarrow> world \<Rightarrow> world) \<Rightarrow> world \<Rightarrow> world" where
  "run_coroutine coro callback w =
     (case coro w of
        (Inl e, w') \<Rightarrow> callback () (Some e) w'
      | (Inr r, w') \<Rightarrow> callback r None w')"

section \<open>Starting and stopping the server\<close>

text \<open>\<^verbatim>\<open>_start_server\<close>.  \<^verbatim>\<open>listen_result\<close> is what awaiting the library's
  \<^verbatim>\<open>start_server\<close> does: return (\<open>None\<close>) or raise.\<close>

definition start_coro :: "string \<Rightarrow> string \<Rightarrow> exn option \<Rightarrow> world \<Rightarrow> (exn + unit) \<times> world" where
  "start_coro sid sname listen_result w =
     (let s = next_ref w;
          w1 = w\<lparr>servers := (servers w)(s := \<lparr>server_id = sid, server_name = sname, clients = [], server_event_cbs = []\<rparr>),
                 next_ref := Suc s, server := Some s\<rparr>;
          (unsub, w2) = server_add_event_listener s w1;
          w3 = w2\<lparr>event_unsubscribers := event_unsubscribers w2 @ [unsub]\<rparr>
      in case listen_result of
           Some e \<Rightarrow> (Inl e, w3)
         | None \<Rightarrow> (Inr (), w3))"

definition start_on_complete :: "string \<Rightarrow> string \<Rightarrow> int \<Rightarrow> unit \<Rightarrow> exn option \<Rightarrow> world \<Rightarrow> world" where
  "start_on_complete sid sname port result error w =
     (case error of
        Some e \<Rightarrow>
          set_server_state False (log_event (''Failed to start server: '' @ exn_str e) ''error'' w)
      | None \<Rightarrow>
          set_server_state True
            (update_status (''Server running: '' @ sname @ '' ('' @ sid @ '') on port '' @ str_int port)
              (log_event (''Server started on port '' @ str_int port) ''success'' w)))"

definition start_server :: "string \<Rightarrow> string \<Rightarrow> int \<Rightarrow> bool \<Rightarrow> exn option \<Rightarrow> world \<Rightarrow> world" where
  "start_server sid sname port enable_mdns listen_result w =
     run_coroutine (start_coro sid sname listen_result) (start_on_complete sid sname port)
       (log_event (''Starting server '' @ [CHR 0x27] @ sname @ [CHR 0x27] @ ''...'') ''info'' w)"

text \<open>\<^verbatim>\<open>_stop_server\<close>.  \<^verbatim>\<open>close_result\<close> is what awaiting the library's
  \<^verbatim>\<open>close\<close> does.\<close>

definition stop_coro :: "exn option \<Rightarrow> world \<Rightarrow> (exn + unit) \<times> world" where
  "stop_coro close_result w =
     (case server w of
        None \<Rightarrow> (Inr (), w)
      | Some s \<Rightarrow> (case close_result of Some e \<Rightarrow> (Inl e, w) | None \<Rightarrow> (Inr (), w)))"

definition stop_on_complete :: "unit \<Rightarrow> exn option \<Rightarrow> world \<Rightarrow> world" where
  "stop_on_complete result error w =
     (let w1 = fold invoke_unsub (event_unsubscribers w) w;
          w2 = w1\<lparr>event_unsubscribers := []\<rparr>;
          w3 = w2\<lparr>server := None\<rparr>;
          w4 = (case error of
                  Some e \<Rightarrow> log_event (''Error stopping server: '' @ exn_str e) ''error'' w3
                | None \<Rightarrow> log_event ''Server stopped'' ''info'' w3);
          w5 = update_status ''Server stopped'' w4;
          w6 = set_server_state False w5;
          w7 = clients_panel_clear w6
      in groups_panel_clear w7)"

definition stop_server :: "exn option \<Rightarrow> world \<Rightarrow> world" where
  "stop_server close_result w =
     (case server w of
        None \<Rightarrow> w
      | Some s \<Rightarrow> run_coroutine (stop_coro close_result) stop_on_complete (log_event ''Stopping server...'' ''info'' w))"

section \<open>Reconciliation\<close>

text \<open>\<^verbatim>\<open>_refresh_clients\<close>.  The loop walks the server's client list; for each client it
  registers a listener, keeps the token, and appends the client's dictionary.\<close>

definition client_dict :: "world \<Rightarrow> nat \<Rightarrow> client_data" where
  "client_dict w c =
     \<lparr>cd_id = client_id (client_objs w c),
      cd_name = name (client_objs w c),
      cd_roles = map rvalue (roles (client_objs w c)),
      cd_group_id = (case group (client_objs w c) of
                       Some g \<Rightarrow> Some (group_id (group_objs w g))
                     | None \<Rightarrow> None)\<rparr>"

fun refresh_clients_loop :: "nat list \<Rightarrow> client_data list \<Rightarrow> world \<Rightarrow> client_data list \<times> world" where
  "refresh_clients_loop [] clients_data w = (clients_data, w)"
| "refresh_clients_loop (c # cs) clients_data w =
     (let (unsub, w1) = client_add_event_listener c w;
          w2 = w1\<lparr>event_unsubscribers := event_unsubscribers w1 @ [unsub]\<rparr>
      in refresh_clients_loop cs (clients_data @ [client_dict w2 c]) w2)"

definition refresh_clients :: "world \<Rightarrow> world" where
  "refresh_clients w =
     (case server w of
        None \<Rightarrow> clients_panel_clear w
      | Some s \<Rightarrow>
          (let (clients_data, w1) = refresh_clients_loop (clients (servers w s)) [] w
           in update_clients clients_data w1))"

text \<open>\<^verbatim>\<open>_refresh_groups\<close>.  The dictionary \<^verbatim>\<open>groups\<close> keeps insertion order, so it is a
  list of (group id, group reference) pairs that only grows at its end, and only by a
  key it does not hold yet.\<close>

fun collect_groups :: "world \<Rightarrow> nat list \<Rightarrow> (string \<times> nat) list \<Rightarrow> (string \<times> nat) list" where
  "collect_groups w [] groups = groups"
| "collect_groups w (c # cs) groups =
     (case group (client_objs w c) of
        None \<Rightarrow> collect_groups w cs groups
      | Some g \<Rightarrow>
          (if group_id (group_objs w g) \<notin> set (map fst groups)
           then collect_groups w cs (groups @ [(group_id (group_objs w g), g)])
           else collect_groups w cs groups))"

definition group_dict :: "world \<Rightarrow> nat \<Rightarrow> group_data" where
  "group_dict w g =
     \<lparr>gd_id = group_id (group_objs w g),
      gd_name = group_name (group_objs w g),
      gd_state = state_str (state (group_objs w g)),
      gd_volume = volume (group_objs w g),
      gd_muted = muted (group_objs w g),
      gd_clients = map (\<lambda>c. client_id (client_objs w c)) (group_clients (group_objs w g))\<rparr>"

definition refresh_groups :: "world \<Rightarrow> world" where
  "refresh_groups w =
     (case server w of
        None \<Rightarrow> groups_panel_clear w
      | Some s \<Rightarrow>
          (let groups = collect_groups w (clients (servers w s)) [];
               groups_data = map (\<lambda>(k, g). group_dict w g) groups
           in update_groups groups_data w))"

section \<open>Groups: the collaborator's operations\<close>

text \<open>Modelled from the spec: the server library's \<^verbatim>\<open>get_client\<close>, the constructor
  \<^verbatim>\<open>SendspinGroup\<close>, \<^verbatim>\<open>group.add_client\<close> and \<^verbatim>\<open>client.ungroup\<close> are not among the
  sources.  Spec 6 lists them (lookup of a client by id, group creation, addClient,
  leaveGroup); spec 4.4 gives a client's membership as Unassigned, Assigned(group),
  Unassigned; spec 8 has members listed in insertion order and a removal keeping the
  order of the rest.  So: lookup returns the first client of the server with that id; a
  new group is a new object with the given name, no members and no listeners, its other
  attributes (its id among them) chosen by the library; adding a client takes it out of
  the group it is in, appends it to the new group's members and sets its back-reference;
  leaving removes the client from its group's members and clears the back-reference.\<close>

definition get_client :: "world \<Rightarrow> nat \<Rightarrow> string \<Rightarrow> nat option" where
  "get_client w s cid = find (\<lambda>c. client_id (client_objs w c) = cid) (clients (servers w s))"

definition SendspinGroup :: "string \<Rightarrow> world \<Rightarrow> nat \<times> world" where
  "SendspinGroup gname w =
     (let g = next_ref w
      in (g, w\<lparr>group_objs := (group_objs w)(g := (group_template w g)\<lparr>group_name := gname, group_clients := [], group_event_cbs := []\<rparr>),
              next_ref := Suc g\<rparr>))"

definition ungroup :: "nat \<Rightarrow> world \<Rightarrow> world" where
  "ungroup c w =
     (case group (client_objs w c) of
        None \<Rightarrow> w
      | Some g \<Rightarrow>
          w\<lparr>group_objs := (group_objs w)(g := (group_objs w g)\<lparr>group_clients := removeAll c (group_clients (group_objs w g))\<rparr>),
            client_objs := (client_objs w)(c := (client_objs w c)\<lparr>group := None\<rparr>)\<rparr>)"

definition add_client :: "nat \<Rightarrow> nat \<Rightarrow> world \<Rightarrow> world" where
  "add_client g c w =
     (let w1 = ungroup c w
      in w1\<lparr>group_objs := (group_objs w1)(g := (group_objs w1 g)\<lparr>group_clients := group_clients (group_objs w1 g) @ [c]\<rparr>),
             client_objs := (client_objs w1)(c := (client_objs w1 c)\<lparr>group := Some g\<rparr>)\<rparr>)"

section \<open>Creating a group and removing a member\<close>

text \<open>\<^verbatim>\<open>_create_group\<close>.  \<^verbatim>\<open>add_result cid\<close> is what awaiting \<^verbatim>\<open>add_client\<close> for that
  client does: return or raise.  The loop reads \<^verbatim>\<open>self._server\<close> at every turn, and
  skips an id the server has no client for.\<close>

fun create_loop :: "(string \<Rightarrow> exn option) \<Rightarrow> nat \<Rightarrow> string list \<Rightarrow> world \<Rightarrow> (exn + unit) \<times> world" where
  "create_loop add_result g [] w = (Inr (), w)"
| "create_loop add_result g (cid # cids) w =
     (case server w of
        None \<Rightarrow> (Inl (Exn ([CHR 0x27] @ ''NoneType'' @ [CHR 0x27] @ '' object has no attribute '' @ [CHR 0x27] @ ''get_client'' @ [CHR 0x27])), w)
      | Some s \<Rightarrow>
          (case get_client w s cid of
             None \<Rightarrow> create_loop add_result g cids w
           | Some c \<Rightarrow>
               (case add_result cid of
                  Some e \<Rightarrow> (Inl e, w)
                | None \<Rightarrow> create_loop add_result g cids (add_client g c w))))"

definition create_coro :: "(string \<Rightarrow> exn option) \<Rightarrow> string list \<Rightarrow> string \<Rightarrow> world \<Rightarrow> (exn + unit) \<times> world" where
  "create_coro add_result client_ids gname w =
     (let (g, w1) = SendspinGroup gname w;
          (unsub, w2) = group_add_event_listener g w1;
          w3 = w2\<lparr>event_unsubscribers := event_unsubscribers w2 @ [unsub]\<rparr>
      in create_loop add_result g client_ids w3)"

definition create_on_complete :: "string list \<Rightarrow> string \<Rightarrow> unit \<Rightarrow> exn option \<Rightarrow> world \<Rightarrow> world" where
  "create_on_complete client_ids gname result error w =
     (case error of
        Some e \<Rightarrow> log_event (''Failed to create group: '' @ exn_str e) ''error'' w
      | None \<Rightarrow>
          refresh_groups (refresh_clients
            (log_event (''Created group '' @ [CHR 0x27] @ gname @ [CHR 0x27] @ '' with ''
                          @ str_nat (length client_ids) @ '' clients'') ''success'' w)))"

definition create_group :: "(string \<Rightarrow> exn option) \<Rightarrow> string list \<Rightarrow> string \<Rightarrow> world \<Rightarrow> world" where
  "create_group add_result client_ids gname w =
     (if server w = None \<or> client_ids = [] then w
      else run_coroutine (create_coro add_result client_ids gname) (create_on_complete client_ids gname) w)"

text \<open>\<^verbatim>\<open>_remove_client_from_group\<close>.  The group id it is given is not read.
  \<^verbatim>\<open>ungroup_result\<close> is what awaiting \<^verbatim>\<open>client.ungroup\<close> does.\<close>

definition remove_coro :: "exn option \<Rightarrow> nat \<Rightarrow> world \<Rightarrow> (exn + unit) \<times> world" where
  "remove_coro ungroup_result c w =
     (case ungroup_result of
        Some e \<Rightarrow> (Inl e, w)
      | None \<Rightarrow> (Inr (), ungroup c w))"

definition remove_on_complete :: "string \<Rightarrow> unit \<Rightarrow> exn option \<Rightarrow> world \<Rightarrow> world" where
  "remove_on_complete cid r e w =
     (case e of
        Some ex \<Rightarrow> log_event (''Error removing client: '' @ exn_str ex) ''error'' w
      | None \<Rightarrow> refresh_groups (refresh_clients (log_event (''Removed '' @ cid @ '' from group'') ''info'' w)))"

definition remove_client_from_group :: "exn option \<Rightarrow> string \<Rightarrow> string \<Rightarrow> world \<Rightarrow> world" where
  "remove_client_from_group ungroup_result gid cid w =
     (case server w of
        None \<Rightarrow> w
      | Some s \<Rightarrow>
          (case get_client w s cid of
             None \<Rightarrow> w
           | Some c \<Rightarrow>
               (case group (client_objs w c) of
                  None \<Rightarrow> w
                | Some g \<Rightarrow> run_coroutine (remove_coro ungroup_result c) (remove_on_complete cid) w)))"

section \<open>Reading a snapshot\<close>

text \<open>The groups the clients of the active server point to, in the order the clients are
  scanned, and the first of them with a given id.\<close>

definition server_clients :: "world \<Rightarrow> nat list" where
  "server_clients w = (case server w of None \<Rightarrow> [] | Some s \<Rightarrow> clients (servers w s))"

definition referenced_groups :: "world \<Rightarrow> nat list" where
  "referenced_groups w = List.map_filter (\<lambda>c. group (client_objs w c)) (server_clients w)"

fun first_occurrences :: "'a list \<Rightarrow> 'a list" where
  "first_occurrences [] = []"
| "first_occurrences (x # xs) = x # filter (\<lambda>y. y \<noteq> x) (first_occurrences xs)"

definition first_group_with_id :: "world \<Rightarrow> string \<Rightarrow> nat option" where
  "first_group_with_id w k = find (\<lambda>g. group_id (group_objs w g) = k) (referenced_groups w)"

text \<open>The member ids the group panel shows for a group id: one list per entry with that
  id.\<close>

definition shown_members :: "world \<Rightarrow> string \<Rightarrow> string list list" where
  "shown_members w k = map gd_clients (filter (\<lambda>e. gd_id e = k) (groups_panel w))"

section \<open>Two concrete states\<close>

text \<open>\<^verbatim>\<open>kitchen_world\<close>: a running server (object 0) that reports two connected clients,
  \<^verbatim>\<open>c1\<close> (object 1) and \<^verbatim>\<open>c2\<close> (object 2), neither in a group, and holds the one
  listener registered at start.  \<^verbatim>\<open>stopped_world\<close>: the same application with no
  server.\<close>

definition blank_server :: server_obj where
  "blank_server = \<lparr>server_id = [], server_name = [], clients = [], server_event_cbs = []\<rparr>"

definition blank_client :: client_obj where
  "blank_client = \<lparr>client_id = [], name = [], roles = [], group = None, client_event_cbs = []\<rparr>"

definition blank_group :: group_obj where
  "blank_group = \<lparr>group_id = [], group_name = [], state = PlaybackState ''stopped'', volume = 100,
                   muted = False, group_clients = [], group_event_cbs = []\<rparr>"

definition kitchen_world :: world where
  "kitchen_world =
     \<lparr>servers = (\<lambda>r. blank_server)
         (0 := \<lparr>server_id = ''srv'', server_name = ''Test'', clients = [1, 2], server_event_cbs = [0]\<rparr>),
      client_objs = (\<lambda>r. blank_client)
         (1 := \<lparr>client_id = ''c1'', name = ''Left'', roles = [Role ''player''], group = None,
                 client_event_cbs = []\<rparr>,
          2 := \<lparr>client_id = ''c2'', name = ''Right'', roles = [Role ''player'', Role ''metadata''],
                 group = None, client_event_cbs = []\<rparr>),
      group_objs = (\<lambda>r. blank_group),
      next_ref = 3,
      next_cb = 1,
      group_template = (\<lambda>r. blank_group\<lparr>group_id := ''group-'' @ str_nat r\<rparr>),
      unsub_calls = [],
      clock = (\<lambda>n. ''12:00:00.000''),
      ticks = 0,
      server = Some 0,
      event_unsubscribers = [ServerTok 0 0],
      server_state = True,
      clients_panel = [],
      groups_panel = [],
      event_log = [],
      status_label = ''Server running: Test (srv) on port 8927''\<rparr>"

definition stopped_world :: world where
  "stopped_world = kitchen_world\<lparr>server := None, server_state := False, status_label := ''Server stopped''\<rparr>"

text \<open>\<^verbatim>\<open>party_world\<close>: three connected clients; \<^verbatim>\<open>c1\<close> and \<^verbatim>\<open>c3\<close> are in the group Kitchen
  (object 5), \<^verbatim>\<open>c2\<close> is alone in the group Hall (object 6).\<close>

definition party_world :: world where
  "party_world =
     kitchen_world
       \<lparr>servers := (\<lambda>r. blank_server)
          (0 := \<lparr>server_id = ''srv'', server_name = ''Test'', clients = [1, 2, 3], server_event_cbs = [0]\<rparr>),
        client_objs := (\<lambda>r. blank_client)
          (1 := \<lparr>client_id = ''c1'', name = ''Left'', roles = [Role ''player''], group = Some 5,
                  client_event_cbs = []\<rparr>,
           2 := \<lparr>client_id = ''c2'', name = ''Right'', roles = [Role ''player''], group = Some 6,
                  client_event_cbs = []\<rparr>,
           3 := \<lparr>client_id = ''c3'', name = ''Sub'', roles = [Role ''player''], group = Some 5,
                  client_event_cbs = []\<rparr>),
        group_objs := (\<lambda>r. blank_group)
          (5 := \<lparr>group_id = ''g5'', group_name = ''Kitchen'', state = PlaybackState ''playing'', volume = 40,
                  muted = False, group_clients = [1, 3], group_event_cbs = []\<rparr>,
           6 := \<lparr>group_id = ''g6'', group_name = ''Hall'', state = PlaybackState ''stopped'', volume = 100,
                  muted = True, group_clients = [2], group_event_cbs = []\<rparr>),
        next_ref := 7\<rparr>"

definition no_failure :: "string \<Rightarrow> exn option" where
  "no_failure cid = None"

section \<open>What a group refresh reads\<close>

text \<open>The part of the state that \<^verbatim>\<open>_refresh_groups\<close>, the lookup of a client and the
  group operations depend on: the server reference, each server's client list, each
  client's id and back-reference, and the group objects.  Listener lists, the log and
  the panels are not in it.\<close>

definition domain_view ::
  "world \<Rightarrow> nat option \<times> (nat \<Rightarrow> nat list) \<times> (nat \<Rightarrow> string \<times> nat option) \<times> (nat \<Rightarrow> group_obj)" where
  "domain_view w =
     (server w,
      (\<lambda>s. clients (servers w s)),
      (\<lambda>c. (client_id (client_objs w c), group (client_objs w c))),
      group_objs w)"

section \<open>Reconciliation of the client list\<close>

lemma client_dict_listener:
  "client_dict ((snd (client_add_event_listener c' w))\<lparr>event_unsubscribers := u\<rparr>) c = client_dict w c"
  by (simp add: client_dict_def client_add_event_listener_def split: option.split)

lemma refresh_clients_loop_data:
  "fst (refresh_clients_loop cs acc w) = acc @ map (client_dict w) cs"
proof (induction cs arbitrary: acc w)
  case Nil
  then show ?case by simp
next
  case (Cons c cs)
  have same: "client_dict ((snd (client_add_event_listener c w))\<lparr>event_unsubscribers := u\<rparr>) = client_dict w" for u
    by (rule ext) (rule client_dict_listener)
  show ?case
    by (simp add: split_def Let_def Cons.IH same)
qed

text \<open>
  Claim C8.  With an active server, \<^verbatim>\<open>_refresh_clients\<close> hands the client panel one
  dictionary per client the server reports, in the server's order, made of the client's
  id, name, role values and the id of its group (or nothing when it has no group).  The
  list does not depend on what the panel showed before.
\<close>

theorem refresh_clients_snapshot:
  "server w = Some s \<Longrightarrow>
   clients_panel (refresh_clients w) =
     map (\<lambda>c. \<lparr>cd_id = client_id (client_objs w c),
                cd_name = name (client_objs w c),
                cd_roles = map rvalue (roles (client_objs w c)),
                cd_group_id = map_option (\<lambda>g. group_id (group_objs w g)) (group (client_objs w c))\<rparr>)
         (clients (servers w s))"
proof -
  assume act: "server w = Some s"
  have "clients_panel (refresh_clients w) = fst (refresh_clients_loop (clients (servers w s)) [] w)"
    by (simp add: refresh_clients_def act split_def update_clients_def Let_def)
  also have "\<dots> = map (client_dict w) (clients (servers w s))"
    by (simp add: refresh_clients_loop_data)
  finally show ?thesis
    by (simp add: client_dict_def map_option_case)
qed

theorem refresh_clients_snapshot_kitchen:
  "server kitchen_world = Some 0 \<and>
   clients_panel (refresh_clients kitchen_world) =
     [\<lparr>cd_id = ''c1'', cd_name = ''Left'', cd_roles = [''player''], cd_group_id = None\<rparr>,
      \<lparr>cd_id = ''c2'', cd_name = ''Right'', cd_roles = [''player'', ''metadata''], cd_group_id = None\<rparr>]"
proof -
  have act: "server kitchen_world = Some 0"
    by (simp add: kitchen_world_def)
  show ?thesis
    using refresh_clients_snapshot [OF act] act
    by (simp add: kitchen_world_def)
qed

section \<open>Refreshing with no server\<close>

text \<open>
  Claim C7.  When no server is active, \<^verbatim>\<open>_refresh_clients\<close> leaves everything as it was
  except that the client panel is empty, and \<^verbatim>\<open>_refresh_groups\<close> leaves everything as
  it was except that the group panel is empty: nothing is raised, no listener is
  registered and no token is kept.
\<close>

theorem refresh_without_server:
  "server w = None \<Longrightarrow>
   refresh_clients w = w\<lparr>clients_panel := []\<rparr> \<and> refresh_groups w = w\<lparr>groups_panel := []\<rparr>"
  by (simp add: refresh_clients_def refresh_groups_def clients_panel_clear_def groups_panel_clear_def)

theorem refresh_without_server_stopped:
  "server stopped_world = None \<and>
   refresh_clients stopped_world = stopped_world\<lparr>clients_panel := []\<rparr> \<and>
   refresh_groups stopped_world = stopped_world\<lparr>groups_panel := []\<rparr>"
proof -
  have idle: "server stopped_world = None"
    by (simp add: stopped_world_def)
  show ?thesis
    using refresh_without_server [OF idle] idle by simp
qed

section \<open>Reconciliation of the group list\<close>

lemma collect_groups_cong:
  "(\<And>c. group (client_objs w' c) = group (client_objs w c)) \<Longrightarrow>
   (\<And>g. group_id (group_objs w' g) = group_id (group_objs w g)) \<Longrightarrow>
   collect_groups w' cs acc = collect_groups w cs acc"
  by (induction cs arbitrary: acc) (simp_all split: option.split)

lemma group_dict_cong:
  "group_objs w' g = group_objs w g \<Longrightarrow>
   (\<And>c. client_id (client_objs w' c) = client_id (client_objs w c)) \<Longrightarrow>
   group_dict w' g = group_dict w g"
  by (simp add: group_dict_def)

lemma refresh_groups_eq:
  "refresh_groups w =
     w\<lparr>groups_panel := map (\<lambda>(k, g). group_dict w g) (collect_groups w (server_clients w) [])\<rparr>"
  by (cases "server w")
     (simp_all add: refresh_groups_def groups_panel_clear_def update_groups_def server_clients_def)

lemma refresh_groups_frame:
  "client_objs (refresh_groups w) = client_objs w"
  "group_objs (refresh_groups w) = group_objs w"
  "server_clients (refresh_groups w) = server_clients w"
  by (simp_all add: refresh_groups_eq server_clients_def split: option.split)

lemma refresh_groups_panel:
  "groups_panel (refresh_groups w) =
     map (\<lambda>(k, g). group_dict w g) (collect_groups w (server_clients w) [])"
  by (simp add: refresh_groups_eq)

text \<open>
  Claim C5.  Calling \<^verbatim>\<open>_refresh_groups\<close> a second time, with nothing changed in between,
  gives the group panel the same list again; indeed it changes nothing at all.
\<close>

theorem refresh_groups_idempotent:
  "groups_panel (refresh_groups (refresh_groups w)) = groups_panel (refresh_groups w)
   \<and> refresh_groups (refresh_groups w) = refresh_groups w"
proof -
  have "collect_groups (refresh_groups w) (server_clients w) [] = collect_groups w (server_clients w) []"
    by (rule collect_groups_cong) (simp_all only: refresh_groups_frame)
  moreover have "group_dict (refresh_groups w) g = group_dict w g" for g
    by (rule group_dict_cong) (simp_all only: refresh_groups_frame)
  ultimately have "refresh_groups (refresh_groups w) = refresh_groups w"
    by (simp add: refresh_groups_eq [of "refresh_groups w"] refresh_groups_frame)
       (simp add: refresh_groups_eq)
  then show ?thesis by simp
qed

lemma first_occurrences_set: "set (first_occurrences xs) = set xs"
  by (induction xs) auto

lemma first_occurrences_distinct: "distinct (first_occurrences xs)"
  by (induction xs) (auto simp: first_occurrences_set)

lemma collect_groups_eq:
  "collect_groups w cs acc =
     acc @ map (\<lambda>k. (k, the (find (\<lambda>g. group_id (group_objs w g) = k)
                               (List.map_filter (\<lambda>c. group (client_objs w c)) cs))))
               (filter (\<lambda>k. k \<notin> set (map fst acc))
                  (first_occurrences (map (\<lambda>g. group_id (group_objs w g))
                     (List.map_filter (\<lambda>c. group (client_objs w c)) cs))))"
proof (induction cs arbitrary: acc)
  case Nil
  then show ?case by (simp add: map_filter_simps)
next
  case (Cons c cs)
  show ?case
  proof (cases "group (client_objs w c)")
    case None
    then show ?thesis by (simp add: Cons.IH map_filter_simps)
  next
    case (Some g)
    show ?thesis
    proof (cases "group_id (group_objs w g) \<in> set (map fst acc)")
      case True
      then show ?thesis
        using Some by (auto simp add: Cons.IH map_filter_simps intro!: map_cong filter_cong)
    next
      case False
      then show ?thesis
        using Some by (auto simp add: Cons.IH map_filter_simps intro!: map_cong filter_cong)
    qed
  qed
qed

lemma groups_panel_by_first_occurrence:
  "groups_panel (refresh_groups w) =
     map (\<lambda>k. group_dict w (the (first_group_with_id w k)))
         (first_occurrences (map (\<lambda>g. group_id (group_objs w g)) (referenced_groups w)))"
  by (simp add: refresh_groups_panel collect_groups_eq [of w _ "[]"] first_group_with_id_def
      referenced_groups_def comp_def)

lemma find_some_mem: "k \<in> f ` set xs \<Longrightarrow> \<exists>x. find (\<lambda>x. f x = k) xs = Some x \<and> f x = k \<and> x \<in> set xs"
  by (induction xs) auto

lemma groups_panel_ids:
  "map gd_id (groups_panel (refresh_groups w)) =
     first_occurrences (map (\<lambda>g. group_id (group_objs w g)) (referenced_groups w))"
proof -
  let ?gid = "\<lambda>g. group_id (group_objs w g)"
  have "gd_id (group_dict w (the (first_group_with_id w k))) = k"
    if "k \<in> set (first_occurrences (map ?gid (referenced_groups w)))" for k
    using find_some_mem [of k ?gid "referenced_groups w"] that
    by (auto simp: first_occurrences_set group_dict_def first_group_with_id_def)
  then show ?thesis
    by (simp add: groups_panel_by_first_occurrence comp_def map_idI)
qed

lemma count_list_distinct: "distinct xs \<Longrightarrow> count_list xs k = (if k \<in> set xs then 1 else 0)"
  by (induction xs) auto

lemma first_occurrences_map_inj:
  "inj_on f (set xs) \<Longrightarrow> first_occurrences (map f xs) = map f (first_occurrences xs)"
proof (induction xs)
  case Nil
  then show ?case by simp
next
  case (Cons x xs)
  then have IH: "first_occurrences (map f xs) = map f (first_occurrences xs)"
    by (simp add: inj_on_def)
  have "filter (\<lambda>y. f y \<noteq> f x) (first_occurrences xs) = filter (\<lambda>y. y \<noteq> x) (first_occurrences xs)"
  proof (rule filter_cong [OF refl])
    fix y assume "y \<in> set (first_occurrences xs)"
    then have "y \<in> set (x # xs)" by (simp add: first_occurrences_set)
    with Cons.prems show "(f y \<noteq> f x) = (y \<noteq> x)"
      by (auto simp: inj_on_def)
  qed
  then show ?case
    by (simp add: IH filter_map comp_def)
qed

lemma find_first_inj:
  "inj_on f (set xs) \<Longrightarrow> x \<in> set xs \<Longrightarrow> find (\<lambda>y. f y = f x) xs = Some x"
  by (induction xs) (auto simp: inj_on_def)

lemma groups_panel_by_object:
  assumes "inj_on (\<lambda>g. group_id (group_objs w g)) (set (referenced_groups w))"
  shows "groups_panel (refresh_groups w) = map (group_dict w) (first_occurrences (referenced_groups w))"
proof -
  let ?gid = "\<lambda>g. group_id (group_objs w g)"
  have "groups_panel (refresh_groups w) =
          map (\<lambda>g. group_dict w (the (first_group_with_id w (?gid g)))) (first_occurrences (referenced_groups w))"
    by (simp add: groups_panel_by_first_occurrence first_occurrences_map_inj [OF assms] comp_def)
  also have "\<dots> = map (group_dict w) (first_occurrences (referenced_groups w))"
  proof (rule map_cong [OF refl])
    fix g assume "g \<in> set (first_occurrences (referenced_groups w))"
    then have "g \<in> set (referenced_groups w)" by (simp add: first_occurrences_set)
    then have "first_group_with_id w (?gid g) = Some g"
      unfolding first_group_with_id_def by (rule find_first_inj [OF assms])
    then show "group_dict w (the (first_group_with_id w (?gid g))) = group_dict w g" by simp
  qed
  finally show ?thesis .
qed

text \<open>
  Claim C2.  The ids the group panel lists after \<^verbatim>\<open>_refresh_groups\<close> are the ids of the
  groups the clients of the active server point to, each at its first occurrence in
  client-scanning order; so an id is listed exactly once when some client points to a
  group with it and not at all otherwise (a group no client points to is absent,
  whatever events arrived).  Each entry holds the id, name, printed state, volume,
  muted flag and member ids of the first group met with that id.  When no two of these
  groups share an id, the panel is the list of the groups pointed to, each once, in
  first-encountered order, with those six fields.
\<close>

theorem refresh_groups_snapshot:
  "map gd_id (groups_panel (refresh_groups w)) =
     first_occurrences (map (\<lambda>g. group_id (group_objs w g)) (referenced_groups w))
   \<and> count_list (map gd_id (groups_panel (refresh_groups w))) k =
       (if k \<in> (\<lambda>g. group_id (group_objs w g)) ` set (referenced_groups w) then 1 else 0)
   \<and> list_all2 (\<lambda>e k. \<exists>g. first_group_with_id w k = Some g \<and>
          e = \<lparr>gd_id = k,
               gd_name = group_name (group_objs w g),
               gd_state = state_str (state (group_objs w g)),
               gd_volume = volume (group_objs w g),
               gd_muted = muted (group_objs w g),
               gd_clients = map (\<lambda>c. client_id (client_objs w c)) (group_clients (group_objs w g))\<rparr>)
        (groups_panel (refresh_groups w))
        (map gd_id (groups_panel (refresh_groups w)))
   \<and> (inj_on (\<lambda>g. group_id (group_objs w g)) (set (referenced_groups w)) \<longrightarrow>
        groups_panel (refresh_groups w) =
          map (\<lambda>g. \<lparr>gd_id = group_id (group_objs w g),
                     gd_name = group_name (group_objs w g),
                     gd_state = state_str (state (group_objs w g)),
                     gd_volume = volume (group_objs w g),
                     gd_muted = muted (group_objs w g),
                     gd_clients = map (\<lambda>c. client_id (client_objs w c)) (group_clients (group_objs w g))\<rparr>)
              (first_occurrences (referenced_groups w)))"
proof -
  let ?gid = "\<lambda>g. group_id (group_objs w g)"
  let ?ids = "map ?gid (referenced_groups w)"
  have found: "\<exists>g. first_group_with_id w k = Some g \<and> ?gid g = k" if "k \<in> set ?ids" for k
    using that find_some_mem [of k ?gid "referenced_groups w"]
    by (auto simp: first_group_with_id_def)
  have ids: "map gd_id (groups_panel (refresh_groups w)) = first_occurrences ?ids"
    by (rule groups_panel_ids)
  have once: "count_list (map gd_id (groups_panel (refresh_groups w))) k =
       (if k \<in> ?gid ` set (referenced_groups w) then 1 else 0)"
    by (simp add: ids count_list_distinct first_occurrences_distinct first_occurrences_set)
  have fields: "list_all2 (\<lambda>e k. \<exists>g. first_group_with_id w k = Some g \<and>
          e = \<lparr>gd_id = k,
               gd_name = group_name (group_objs w g),
               gd_state = state_str (state (group_objs w g)),
               gd_volume = volume (group_objs w g),
               gd_muted = muted (group_objs w g),
               gd_clients = map (\<lambda>c. client_id (client_objs w c)) (group_clients (group_objs w g))\<rparr>)
        (groups_panel (refresh_groups w))
        (map gd_id (groups_panel (refresh_groups w)))"
    unfolding ids
    unfolding groups_panel_by_first_occurrence list_all2_map1 list_all2_same
  proof
    fix k
    assume "k \<in> set (first_occurrences ?ids)"
    then obtain g where "first_group_with_id w k = Some g" "?gid g = k"
      using found [of k] by (auto simp: first_occurrences_set)
    then show "\<exists>g. first_group_with_id w k = Some g \<and>
          group_dict w (the (first_group_with_id w k)) =
            \<lparr>gd_id = k,
             gd_name = group_name (group_objs w g),
             gd_state = state_str (state (group_objs w g)),
             gd_volume = volume (group_objs w g),
             gd_muted = muted (group_objs w g),
             gd_clients = map (\<lambda>c. client_id (client_objs w c)) (group_clients (group_objs w g))\<rparr>"
      by (simp add: group_dict_def)
  qed
  have objects: "groups_panel (refresh_groups w) =
          map (\<lambda>g. \<lparr>gd_id = group_id (group_objs w g),
                     gd_name = group_name (group_objs w g),
                     gd_state = state_str (state (group_objs w g)),
                     gd_volume = volume (group_objs w g),
                     gd_muted = muted (group_objs w g),
                     gd_clients = map (\<lambda>c. client_id (client_objs w c)) (group_clients (group_objs w g))\<rparr>)
              (first_occurrences (referenced_groups w))"
    if "inj_on ?gid (set (referenced_groups w))"
    using groups_panel_by_object [OF that] by (simp add: group_dict_def [abs_def])
  from ids once fields objects show ?thesis by blast
qed

text \<open>In \<^verbatim>\<open>party_world\<close> the clients point to Kitchen, Hall, Kitchen: the panel lists
  Kitchen, then Hall, each once.\<close>

theorem refresh_groups_snapshot_party:
  "inj_on (\<lambda>g. group_id (group_objs party_world g)) (set (referenced_groups party_world))
   \<and> referenced_groups party_world = [5, 6, 5]
   \<and> groups_panel (refresh_groups party_world) =
     [\<lparr>gd_id = ''g5'', gd_name = ''Kitchen'', gd_state = ''playing'', gd_volume = 40, gd_muted = False,
        gd_clients = [''c1'', ''c3'']\<rparr>,
      \<lparr>gd_id = ''g6'', gd_name = ''Hall'', gd_state = ''stopped'', gd_volume = 100, gd_muted = True,
        gd_clients = [''c2'']\<rparr>]"
proof -
  have refs: "referenced_groups party_world = [5, 6, 5]"
    by (simp add: referenced_groups_def server_clients_def party_world_def kitchen_world_def map_filter_simps)
  have "distinct (map (\<lambda>g. group_id (group_objs party_world g)) [5, 6])"
    by (simp add: party_world_def kitchen_world_def)
  then have "inj_on (\<lambda>g. group_id (group_objs party_world g)) (set [5, 6])"
    by (rule distinct_map [THEN iffD1, THEN conjunct2])
  moreover have "set [5, 6, 5] = set [5, 6 :: nat]"
    by auto
  ultimately have inj: "inj_on (\<lambda>g. group_id (group_objs party_world g)) (set (referenced_groups party_world))"
    unfolding refs by (simp only:)
  have "groups_panel (refresh_groups party_world) =
          map (\<lambda>g. \<lparr>gd_id = group_id (group_objs party_world g),
                     gd_name = group_name (group_objs party_world g),
                     gd_state = state_str (state (group_objs party_world g)),
                     gd_volume = volume (group_objs party_world g),
                     gd_muted = muted (group_objs party_world g),
                     gd_clients = map (\<lambda>c. client_id (client_objs party_world c))
                                    (group_clients (group_objs party_world g))\<rparr>)
              (first_occurrences [5, 6, 5])"
    using refresh_groups_snapshot [of party_world] inj unfolding refs by blast
  then have "groups_panel (refresh_groups party_world) =
     [\<lparr>gd_id = ''g5'', gd_name = ''Kitchen'', gd_state = ''playing'', gd_volume = 40, gd_muted = False,
        gd_clients = [''c1'', ''c3'']\<rparr>,
      \<lparr>gd_id = ''g6'', gd_name = ''Hall'', gd_state = ''stopped'', gd_volume = 100, gd_muted = True,
        gd_clients = [''c2'']\<rparr>]"
    by (simp add: party_world_def kitchen_world_def)
  with inj refs show ?thesis
    by blast
qed

section \<open>Completion of a server stop\<close>

lemma fold_invoke_calls: "unsub_calls (fold invoke_unsub ts w) = unsub_calls w @ ts"
proof (induction ts arbitrary: w)
  case Nil
  then show ?case by simp
next
  case (Cons t ts)
  show ?case by (cases t) (simp_all add: Cons.IH)
qed

text \<open>
  Claim C9.  When the stop submission completes, with or without an error, every token
  the application holds has been called (in the order held), the list of tokens is
  empty, the server reference is dropped, the running state is false and both panels
  are empty.
\<close>

theorem stop_completion:
  "unsub_calls (stop_on_complete r error w) = unsub_calls w @ event_unsubscribers w
   \<and> event_unsubscribers (stop_on_complete r error w) = []
   \<and> server (stop_on_complete r error w) = None
   \<and> server_state (stop_on_complete r error w) = False
   \<and> clients_panel (stop_on_complete r error w) = []
   \<and> groups_panel (stop_on_complete r error w) = []"
  by (cases error) (simp_all add: stop_on_complete_def Let_def fold_invoke_calls log_event_def add_event_def
      update_status_def set_server_state_def clients_panel_clear_def groups_panel_clear_def)

section \<open>Completion of a server start\<close>

text \<open>
  Claim C6.  When the start submission completes with an error, the completion callback
  is called with no result and that error; it appends to the event log an entry of level
  \<^verbatim>\<open>error\<close> that reads, after the timestamp, \<^verbatim>\<open>Failed to start server: \<close> followed by
  the error's text, and sets the running state to false.  When it completes without an
  error the running state is set to true.
\<close>

theorem start_completion:
  "event_log (start_on_complete sid sname port r (Some e) w) =
     event_log w @ [(''['' @ clock w (ticks w) @ ''] '' @ ''Failed to start server: '' @ exn_str e, ''error'')]
   \<and> server_state (start_on_complete sid sname port r (Some e) w) = False
   \<and> server_state (start_on_complete sid sname port r None w) = True
   \<and> start_server sid sname port mdns (Some e) w =
       start_on_complete sid sname port () (Some e)
         (snd (start_coro sid sname (Some e)
            (log_event (''Starting server '' @ [CHR 0x27] @ sname @ [CHR 0x27] @ ''...'') ''info'' w)))
   \<and> server_state (start_server sid sname port mdns (Some e) w) = False
   \<and> server_state (start_server sid sname port mdns None w) = True"
  by (simp add: start_on_complete_def start_server_def run_coroutine_def start_coro_def
      log_event_def add_event_def set_server_state_def update_status_def
      server_add_event_listener_def Let_def)

text \<open>The spec's scenario: the listen fails with \<^verbatim>\<open>address in use\<close>.\<close>

lemma start_address_in_use:
  "last (event_log (start_server ''srv'' ''Test'' 8927 True (Some (Exn ''address in use'')) stopped_world)) =
     (''[12:00:00.000] Failed to start server: address in use'', ''error'')"
  by (simp add: start_on_complete_def start_server_def run_coroutine_def start_coro_def
      log_event_def add_event_def set_server_state_def update_status_def
      server_add_event_listener_def Let_def stopped_world_def kitchen_world_def)

section \<open>Listeners registered by a client refresh\<close>

text \<open>Every call of \<^verbatim>\<open>_refresh_clients\<close> registers one more listener on a client for each
  time the server lists it.\<close>

lemma refresh_clients_loop_cbs:
  "length (client_event_cbs (client_objs (snd (refresh_clients_loop cs acc w)) c)) =
     length (client_event_cbs (client_objs w c)) + count_list cs c"
  by (induction cs arbitrary: acc w) (simp_all add: split_def Let_def client_add_event_listener_def)

lemma refresh_clients_adds_listener:
  "server w = Some s \<Longrightarrow>
   length (client_event_cbs (client_objs (refresh_clients w) c)) =
     length (client_event_cbs (client_objs w c)) + count_list (clients (servers w s)) c"
  by (simp add: refresh_clients_def split_def Let_def update_clients_def refresh_clients_loop_cbs)

text \<open>
  Claim C1.  The claim is that a client never has more than one listener of the
  application.  \<^verbatim>\<open>_refresh_clients\<close> registers one more at every call: in
  \<^verbatim>\<open>kitchen_world\<close> client \<^verbatim>\<open>c1\<close> has none, one after the first refresh and two after the
  second, and no token has been called in between.
\<close>

theorem refresh_clients_twice_two_listeners:
  "client_event_cbs (client_objs kitchen_world 1) = []
   \<and> client_event_cbs (client_objs (refresh_clients kitchen_world) 1) = [1]
   \<and> client_event_cbs (client_objs (refresh_clients (refresh_clients kitchen_world)) 1) = [1, 3]
   \<and> unsub_calls (refresh_clients (refresh_clients kitchen_world)) = []"
  by (simp add: refresh_clients_def kitchen_world_def client_add_event_listener_def update_clients_def
      client_dict_def blank_client_def Let_def)

section \<open>Creating a group, then removing a member\<close>

subsection \<open>Operations that leave the group view alone\<close>

lemma domain_viewD:
  assumes "domain_view w' = domain_view w"
  shows "server w' = server w"
    and "clients (servers w' s) = clients (servers w s)"
    and "client_id (client_objs w' c) = client_id (client_objs w c)"
    and "group (client_objs w' c) = group (client_objs w c)"
    and "group_objs w' = group_objs w"
  using assms by (simp_all add: domain_view_def fun_eq_iff)

lemma domain_view_server_clients:
  assumes "domain_view w' = domain_view w"
  shows "server_clients w' = server_clients w"
  by (simp add: server_clients_def domain_viewD [OF assms] split: option.split)

lemma domain_view_get_client:
  assumes "domain_view w' = domain_view w"
  shows "get_client w' s cid = get_client w s cid"
  by (simp add: get_client_def domain_viewD [OF assms])

lemma domain_view_refresh_groups_panel:
  assumes "domain_view w' = domain_view w"
  shows "groups_panel (refresh_groups w') = groups_panel (refresh_groups w)"
proof -
  have "collect_groups w' cs acc = collect_groups w cs acc" for cs acc
    by (rule collect_groups_cong) (simp_all add: domain_viewD [OF assms])
  moreover have "group_dict w' g = group_dict w g" for g
    by (rule group_dict_cong) (simp_all add: domain_viewD [OF assms])
  ultimately show ?thesis
    by (simp add: refresh_groups_panel domain_view_server_clients [OF assms])
qed

lemma domain_view_log_event [simp]: "domain_view (log_event m l w) = domain_view w"
  by (simp add: domain_view_def log_event_def add_event_def Let_def)

lemma domain_view_refresh_groups [simp]: "domain_view (refresh_groups w) = domain_view w"
  by (simp add: domain_view_def refresh_groups_eq)

lemma domain_view_refresh_clients_loop:
  "domain_view (snd (refresh_clients_loop cs acc w)) = domain_view w"
proof (induction cs arbitrary: acc w)
  case Nil
  then show ?case by simp
next
  case (Cons c cs)
  have "domain_view ((snd (client_add_event_listener c w))\<lparr>event_unsubscribers := u\<rparr>) = domain_view w" for u
    by (auto simp: domain_view_def client_add_event_listener_def)
  then show ?case
    by (simp add: split_def Let_def Cons.IH)
qed

lemma domain_view_refresh_clients [simp]: "domain_view (refresh_clients w) = domain_view w"
proof (cases "server w")
  case None
  then show ?thesis
    by (simp add: refresh_clients_def clients_panel_clear_def domain_view_def)
next
  case (Some s)
  have "domain_view (refresh_clients w) = domain_view (snd (refresh_clients_loop (clients (servers w s)) [] w))"
    by (simp add: refresh_clients_def Some split_def Let_def update_clients_def domain_view_def)
  then show ?thesis
    by (simp add: domain_view_refresh_clients_loop)
qed

lemma domain_view_ungroup:
  "domain_view w' = domain_view w \<Longrightarrow> domain_view (ungroup c w') = domain_view (ungroup c w)"
proof -
  assume same: "domain_view w' = domain_view w"
  note d = domain_viewD [OF same]
  show ?thesis
  proof (cases "group (client_objs w c)")
    case None
    then show ?thesis
      using same by (simp add: ungroup_def d)
  next
    case (Some g)
    then have "group (client_objs w' c) = Some g"
      by (simp add: d)
    then show ?thesis
      using Some by (simp add: domain_view_def ungroup_def d fun_eq_iff)
  qed
qed

lemma refresh_groups_panel_after:
  "groups_panel (refresh_groups (refresh_clients (log_event m l w))) = groups_panel (refresh_groups w)"
  by (rule domain_view_refresh_groups_panel) simp

subsection \<open>Adding clients to a group\<close>

lemma add_client_frame:
  "server (add_client g c w) = server w"
  "servers (add_client g c w) = servers w"
  "client_id (client_objs (add_client g c w) c') = client_id (client_objs w c')"
  "group_id (group_objs (add_client g c w) g') = group_id (group_objs w g')"
  by (simp_all add: add_client_def ungroup_def Let_def split: option.split)

lemma add_client_group:
  "group (client_objs (add_client g c w) c') = (if c' = c then Some g else group (client_objs w c'))"
  by (simp add: add_client_def ungroup_def Let_def split: option.split)

lemma add_client_members:
  "group (client_objs w c) \<noteq> Some g \<Longrightarrow>
   group_clients (group_objs (add_client g c w) g) = group_clients (group_objs w g) @ [c]"
  by (auto simp add: add_client_def ungroup_def Let_def split: option.split)

lemma add_client_get_client: "get_client (add_client g c w) s cid = get_client w s cid"
  by (simp add: get_client_def add_client_frame)

lemma fold_add_client_frame:
  "server (fold (add_client g) rs w) = server w"
  "servers (fold (add_client g) rs w) = servers w"
  "client_id (client_objs (fold (add_client g) rs w) c') = client_id (client_objs w c')"
  "group_id (group_objs (fold (add_client g) rs w) g') = group_id (group_objs w g')"
  by (induction rs arbitrary: w) (simp_all add: add_client_frame)

lemma fold_add_client_group:
  "group (client_objs (fold (add_client g) rs w) c') =
     (if c' \<in> set rs then Some g else group (client_objs w c'))"
  by (induction rs arbitrary: w) (auto simp add: add_client_group)

lemma fold_add_client_members:
  "distinct rs \<Longrightarrow> \<forall>c \<in> set rs. group (client_objs w c) \<noteq> Some g \<Longrightarrow>
   group_clients (group_objs (fold (add_client g) rs w) g) = group_clients (group_objs w g) @ rs"
proof (induction rs arbitrary: w)
  case Nil
  then show ?case by simp
next
  case (Cons r rs)
  have "\<forall>c \<in> set rs. group (client_objs (add_client g r w) c) \<noteq> Some g"
    using Cons.prems by (auto simp: add_client_group)
  with Cons show ?case
    by (simp add: add_client_members)
qed

lemma get_client_Some:
  "get_client w s cid = Some c \<Longrightarrow> c \<in> set (clients (servers w s)) \<and> client_id (client_objs w c) = cid"
  by (auto simp: get_client_def find_Some_iff)

lemma create_loop_fold:
  "server w = Some s \<Longrightarrow>
   \<forall>cid \<in> set cids. get_client w s cid \<noteq> None \<and> add_result cid = None \<Longrightarrow>
   create_loop add_result g cids w =
     (Inr (), fold (add_client g) (map (\<lambda>cid. the (get_client w s cid)) cids) w)"
proof (induction cids arbitrary: w)
  case Nil
  then show ?case by simp
next
  case (Cons cid cids)
  from Cons.prems obtain r where r: "get_client w s cid = Some r" by auto
  have "create_loop add_result g (cid # cids) w = create_loop add_result g cids (add_client g r w)"
    using Cons.prems r by simp
  also have "\<dots> = (Inr (), fold (add_client g)
                       (map (\<lambda>cid. the (get_client (add_client g r w) s cid)) cids) (add_client g r w))"
    using Cons.prems by (intro Cons.IH) (simp_all add: add_client_frame add_client_get_client)
  finally show ?case
    using r by (simp add: add_client_get_client)
qed

subsection \<open>What the panel shows for one group id\<close>

lemma filter_eq_singleton: "distinct xs \<Longrightarrow> k \<in> set xs \<Longrightarrow> filter (\<lambda>x. x = k) xs = [k]"
  by (induction xs) (auto simp: filter_empty_conv)

lemma shown_members_present:
  assumes ref: "g \<in> set (referenced_groups w)"
    and only: "\<forall>g' \<in> set (referenced_groups w). group_id (group_objs w g') = group_id (group_objs w g) \<longrightarrow> g' = g"
  shows "shown_members (refresh_groups w) (group_id (group_objs w g)) =
           [map (\<lambda>c. client_id (client_objs w c)) (group_clients (group_objs w g))]"
proof -
  let ?gid = "\<lambda>g. group_id (group_objs w g)"
  let ?ids = "map ?gid (referenced_groups w)"
  have found: "\<exists>g'. first_group_with_id w k = Some g' \<and> ?gid g' = k \<and> g' \<in> set (referenced_groups w)"
    if "k \<in> set ?ids" for k
    using that find_some_mem [of k ?gid "referenced_groups w"]
    by (simp add: first_group_with_id_def)
  have key: "gd_id (group_dict w (the (first_group_with_id w k))) = k"
    if "k \<in> set (first_occurrences ?ids)" for k
    using found [of k] that by (auto simp: first_occurrences_set group_dict_def)
  have "filter (\<lambda>e. gd_id e = ?gid g) (groups_panel (refresh_groups w)) =
          map (\<lambda>k. group_dict w (the (first_group_with_id w k)))
              (filter (\<lambda>k. k = ?gid g) (first_occurrences ?ids))"
    unfolding groups_panel_by_first_occurrence filter_map comp_def
    by (rule arg_cong [where f = "map _"], rule filter_cong) (simp_all add: key)
  also have "filter (\<lambda>k. k = ?gid g) (first_occurrences ?ids) = [?gid g]"
    using ref by (intro filter_eq_singleton) (simp_all add: first_occurrences_distinct first_occurrences_set)
  finally have "filter (\<lambda>e. gd_id e = ?gid g) (groups_panel (refresh_groups w)) =
          [group_dict w (the (first_group_with_id w (?gid g)))]"
    by simp
  moreover have "first_group_with_id w (?gid g) = Some g"
    using found [of "?gid g"] ref only by auto
  ultimately show ?thesis
    by (simp add: shown_members_def group_dict_def)
qed

lemma shown_members_absent:
  assumes "k \<notin> (\<lambda>g. group_id (group_objs w g)) ` set (referenced_groups w)"
  shows "shown_members (refresh_groups w) k = []"
proof -
  have "k \<notin> set (map gd_id (groups_panel (refresh_groups w)))"
    using assms by (simp add: groups_panel_ids first_occurrences_set)
  then show ?thesis
    by (auto simp: shown_members_def filter_empty_conv)
qed

lemma referenced_groups_iff:
  "g \<in> set (referenced_groups w) \<longleftrightarrow> (\<exists>c \<in> set (server_clients w). group (client_objs w c) = Some g)"
proof -
  have "set (List.map_filter f xs) = {y. \<exists>x \<in> set xs. f x = Some y}" for f :: "nat \<Rightarrow> nat option" and xs
    by (induction xs) (auto simp: map_filter_simps split: option.splits)
  then show ?thesis
    by (simp add: referenced_groups_def)
qed

lemma shown_members_of_group:
  assumes act: "server X = Some s"
    and mem: "c0 \<in> set (clients (servers X s))" "group (client_objs X c0) = Some g"
    and uniq: "\<And>c g'. c \<in> set (clients (servers X s)) \<Longrightarrow> group (client_objs X c) = Some g' \<Longrightarrow>
                 g' \<noteq> g \<Longrightarrow> group_id (group_objs X g') \<noteq> group_id (group_objs X g)"
  shows "shown_members (refresh_groups X) (group_id (group_objs X g)) =
           [map (\<lambda>c. client_id (client_objs X c)) (group_clients (group_objs X g))]"
proof (rule shown_members_present)
  show "g \<in> set (referenced_groups X)"
    using act mem by (auto simp: referenced_groups_iff server_clients_def)
  show "\<forall>g' \<in> set (referenced_groups X).
          group_id (group_objs X g') = group_id (group_objs X g) \<longrightarrow> g' = g"
  proof (intro ballI impI)
    fix g'
    assume "g' \<in> set (referenced_groups X)"
      and eq: "group_id (group_objs X g') = group_id (group_objs X g)"
    then obtain c where "c \<in> set (clients (servers X s))" "group (client_objs X c) = Some g'"
      using act by (auto simp: referenced_groups_iff server_clients_def)
    with uniq eq show "g' = g" by blast
  qed
qed

lemma shown_members_none:
  assumes act: "server X = Some s"
    and other: "\<And>c g'. c \<in> set (clients (servers X s)) \<Longrightarrow> group (client_objs X c) = Some g' \<Longrightarrow>
                  group_id (group_objs X g') \<noteq> k"
  shows "shown_members (refresh_groups X) k = []"
proof (rule shown_members_absent)
  show "k \<notin> (\<lambda>g. group_id (group_objs X g)) ` set (referenced_groups X)"
  proof
    assume "k \<in> (\<lambda>g. group_id (group_objs X g)) ` set (referenced_groups X)"
    then obtain g' where "g' \<in> set (referenced_groups X)" "group_id (group_objs X g') = k"
      by auto
    then obtain c where "c \<in> set (clients (servers X s))" "group (client_objs X c) = Some g'"
      using act by (auto simp: referenced_groups_iff server_clients_def)
    with other \<open>group_id (group_objs X g') = k\<close> show False by blast
  qed
qed

lemma shown_members_cong:
  "groups_panel w' = groups_panel w \<Longrightarrow> shown_members w' k = shown_members w k"
  by (simp add: shown_members_def)

lemma length_filter_others:
  "distinct xs \<Longrightarrow> x \<in> set xs \<Longrightarrow> length (filter (\<lambda>y. y \<noteq> x) xs) = length xs - 1"
proof (induction xs)
  case Nil
  then show ?case by simp
next
  case (Cons a xs)
  have keep: "filter (\<lambda>y. y \<noteq> x) xs = xs" if "x \<notin> set xs"
    using that by (simp add: filter_id_conv) blast
  show ?case
  proof (cases "a = x")
    case True
    with Cons.prems show ?thesis by (simp add: keep)
  next
    case False
    with Cons.prems have "x \<in> set xs" by simp
    then have "0 < length xs" by (rule length_pos_if_in_set)
    with Cons False \<open>x \<in> set xs\<close> show ?thesis by simp
  qed
qed

lemma create_coro_outcome:
  assumes act: "server w = Some s"
    and ok: "\<forall>cid \<in> set client_ids. get_client w s cid \<noteq> None \<and> add_result cid = None"
    and dist: "distinct client_ids"
    and new_ref: "next_ref w \<notin> set (referenced_groups w)"
  obtains W where
    "create_coro add_result client_ids gname w = (Inr (), W)"
    "server W = Some s"
    "clients (servers W s) = clients (servers w s)"
    "\<And>c. client_id (client_objs W c) = client_id (client_objs w c)"
    "\<And>c. group (client_objs W c) =
        (if c \<in> set (map (\<lambda>cid. the (get_client w s cid)) client_ids) then Some (next_ref w)
         else group (client_objs w c))"
    "group_clients (group_objs W (next_ref w)) = map (\<lambda>cid. the (get_client w s cid)) client_ids"
    "\<And>g'. group_id (group_objs W g') =
        (if g' = next_ref w then group_id (group_template w (next_ref w)) else group_id (group_objs w g'))"
proof -
  let ?g = "next_ref w"
  let ?rs = "map (\<lambda>cid. the (get_client w s cid)) client_ids"
  define w3 where "w3 = (let (g, w1) = SendspinGroup gname w;
                            (unsub, w2) = group_add_event_listener g w1
                        in w2\<lparr>event_unsubscribers := event_unsubscribers w2 @ [unsub]\<rparr>)"
  have w3: "server w3 = server w" "servers w3 = servers w" "client_objs w3 = client_objs w"
    "group_clients (group_objs w3 ?g) = []"
    "group_id (group_objs w3 g') = (if g' = ?g then group_id (group_template w ?g) else group_id (group_objs w g'))"
    for g'
    by (simp_all add: w3_def SendspinGroup_def group_add_event_listener_def Let_def)
  have coro: "create_coro add_result client_ids gname w = create_loop add_result ?g client_ids w3"
    by (simp add: create_coro_def w3_def SendspinGroup_def group_add_event_listener_def Let_def)
  have same_lookup: "get_client w3 s cid = get_client w s cid" for cid
    by (simp add: get_client_def w3)
  have loop: "create_loop add_result ?g client_ids w3 = (Inr (), fold (add_client ?g) ?rs w3)"
    using create_loop_fold [of w3 s client_ids add_result ?g] act ok
    by (simp add: w3 same_lookup)
  have rs_in: "r \<in> set (clients (servers w s)) \<and> client_id (client_objs w r) = cid"
    if "cid \<in> set client_ids" "r = the (get_client w s cid)" for r cid
    using that ok get_client_Some [of w s cid] by auto
  have rs_dist: "distinct ?rs"
  proof -
    have "inj_on (\<lambda>cid. the (get_client w s cid)) (set client_ids)"
    proof (rule inj_on_inverseI)
      fix cid assume "cid \<in> set client_ids"
      then show "client_id (client_objs w (the (get_client w s cid))) = cid"
        using rs_in by blast
    qed
    with dist show ?thesis by (simp add: distinct_map)
  qed
  have rs_free: "\<forall>c \<in> set ?rs. group (client_objs w3 c) \<noteq> Some ?g"
  proof
    fix c assume "c \<in> set ?rs"
    then have "c \<in> set (server_clients w)"
      using rs_in act by (auto simp: server_clients_def)
    then show "group (client_objs w3 c) \<noteq> Some ?g"
      using new_ref by (auto simp: referenced_groups_iff w3)
  qed
  let ?W = "fold (add_client ?g) ?rs w3"
  show thesis
  proof (rule that [of ?W])
    show "create_coro add_result client_ids gname w = (Inr (), ?W)"
      by (simp add: coro loop)
    show "server ?W = Some s"
      by (simp add: fold_add_client_frame w3 act)
    show "clients (servers ?W s) = clients (servers w s)"
      by (simp add: fold_add_client_frame w3)
    show "client_id (client_objs ?W c) = client_id (client_objs w c)" for c
      by (simp add: fold_add_client_frame w3)
    show "group (client_objs ?W c) = (if c \<in> set ?rs then Some ?g else group (client_objs w c))" for c
      by (simp add: fold_add_client_group w3)
    show "group_clients (group_objs ?W ?g) = ?rs"
      using fold_add_client_members [OF rs_dist rs_free] by (simp add: w3)
    show "group_id (group_objs ?W g') =
        (if g' = ?g then group_id (group_template w ?g) else group_id (group_objs w g'))" for g'
      by (simp add: fold_add_client_frame w3)
  qed
qed

lemma get_client_same:
  "clients (servers w' s) = clients (servers w s) \<Longrightarrow>
   (\<And>c. client_id (client_objs w' c) = client_id (client_objs w c)) \<Longrightarrow>
   get_client w' s cid = get_client w s cid"
  by (simp add: get_client_def)

lemma ungroup_facts:
  assumes "group (client_objs w r) = Some g"
  shows "server (ungroup r w) = server w"
    and "servers (ungroup r w) = servers w"
    and "client_id (client_objs (ungroup r w) c) = client_id (client_objs w c)"
    and "group (client_objs (ungroup r w) c) = (if c = r then None else group (client_objs w c))"
    and "group_id (group_objs (ungroup r w) g') = group_id (group_objs w g')"
    and "group_clients (group_objs (ungroup r w) g) = removeAll r (group_clients (group_objs w g))"
  using assms by (simp_all add: ungroup_def)

text \<open>
  Claim C4, as amended.  Take an active server, a non-empty list of distinct ids that
  each name a client the server reports, no failing \<^verbatim>\<open>add_client\<close> call, and a new group
  whose object and id are not those of a group some client already points to.  After
  \<^verbatim>\<open>_create_group\<close> the panel has exactly one entry for the new group and its member ids
  are the given list, in the given order.  After \<^verbatim>\<open>_remove_client_from_group\<close> for one
  of the members there is, when the list had at least two ids, exactly one entry for the
  group, with the remaining ids in their order (one fewer); when the list had one id
  the group is no longer listed.
\<close>

theorem create_then_remove_members:
  assumes act: "server w = Some s"
    and nonempty: "client_ids \<noteq> []"
    and dist: "distinct client_ids"
    and connected: "\<forall>cid \<in> set client_ids. get_client w s cid \<noteq> None"
    and added: "\<forall>cid \<in> set client_ids. add_result cid = None"
    and new_ref: "next_ref w \<notin> set (referenced_groups w)"
    and new_id: "group_id (group_template w (next_ref w))
                   \<notin> (\<lambda>g. group_id (group_objs w g)) ` set (referenced_groups w)"
    and member: "cid \<in> set client_ids"
  shows "shown_members (create_group add_result client_ids gname w)
           (group_id (group_template w (next_ref w))) = [client_ids]
       \<and> shown_members
           (remove_client_from_group None gid cid (create_group add_result client_ids gname w))
           (group_id (group_template w (next_ref w))) =
             (if length client_ids = 1 then [] else [filter (\<lambda>x. x \<noteq> cid) client_ids])
       \<and> length (filter (\<lambda>x. x \<noteq> cid) client_ids) = length client_ids - 1"
proof -
  let ?g = "next_ref w"
  let ?k = "group_id (group_template w ?g)"
  let ?f = "\<lambda>cid. the (get_client w s cid)"
  let ?rs = "map ?f client_ids"
  have ok: "\<forall>cid \<in> set client_ids. get_client w s cid \<noteq> None \<and> add_result cid = None"
    using connected added by simp
  obtain W where W:
    "create_coro add_result client_ids gname w = (Inr (), W)"
    "server W = Some s"
    "clients (servers W s) = clients (servers w s)"
    "\<And>c. client_id (client_objs W c) = client_id (client_objs w c)"
    "\<And>c. group (client_objs W c) = (if c \<in> set ?rs then Some ?g else group (client_objs w c))"
    "group_clients (group_objs W ?g) = ?rs"
    "\<And>g'. group_id (group_objs W g') = (if g' = ?g then ?k else group_id (group_objs w g'))"
    using create_coro_outcome [OF act ok dist new_ref, of gname] by blast
  have f_in: "?f i \<in> set (clients (servers w s))" and f_id: "client_id (client_objs w (?f i)) = i"
    if "i \<in> set client_ids" for i
    using that connected get_client_Some [of w s i] by auto
  have ids: "map (\<lambda>c. client_id (client_objs w c)) ?rs = client_ids"
    by (simp add: comp_def f_id map_idI)
  have old: "group_id (group_objs w g') \<noteq> ?k \<and> g' \<noteq> ?g"
    if "c \<in> set (clients (servers w s))" "group (client_objs w c) = Some g'" for c g'
  proof -
    have ref: "g' \<in> set (referenced_groups w)"
      using that act by (auto simp: referenced_groups_iff server_clients_def)
    then have "group_id (group_objs w g') \<in> (\<lambda>g. group_id (group_objs w g)) ` set (referenced_groups w)"
      by (rule imageI)
    with new_id have "group_id (group_objs w g') \<noteq> ?k"
      by metis
    moreover from ref new_ref have "g' \<noteq> ?g"
      by metis
    ultimately show ?thesis ..
  qed
  \<comment> \<open>after the creation\<close>
  let ?w1 = "create_group add_result client_ids gname w"
  have w1: "?w1 = refresh_groups (refresh_clients
               (log_event (''Created group '' @ [CHR 0x27] @ gname @ [CHR 0x27] @ '' with ''
                          @ str_nat (length client_ids) @ '' clients'') ''success'' W))"
    using act nonempty by (simp add: create_group_def run_coroutine_def W(1) create_on_complete_def)
  have view1: "domain_view ?w1 = domain_view W"
    by (simp add: w1)
  have panel1: "groups_panel ?w1 = groups_panel (refresh_groups W)"
    unfolding w1 by (simp add: refresh_groups_panel_after)
  obtain i0 where i0: "i0 \<in> set client_ids"
    using nonempty by (cases client_ids) auto
  have first: "shown_members ?w1 ?k = [client_ids]"
  proof -
    have "shown_members (refresh_groups W) (group_id (group_objs W ?g)) =
            [map (\<lambda>c. client_id (client_objs W c)) (group_clients (group_objs W ?g))]"
    proof (rule shown_members_of_group [OF W(2), of "?f i0"])
      show "?f i0 \<in> set (clients (servers W s))"
        using f_in [OF i0] by (simp add: W(3))
      show "group (client_objs W (?f i0)) = Some ?g"
        using i0 by (simp add: W(5))
    next
      fix c g'
      assume "c \<in> set (clients (servers W s))" "group (client_objs W c) = Some g'" "g' \<noteq> ?g"
      then have "c \<in> set (clients (servers w s))" "group (client_objs w c) = Some g'"
        by (auto simp: W(3) W(5) split: if_splits)
      from old [OF this] \<open>g' \<noteq> ?g\<close> show "group_id (group_objs W g') \<noteq> group_id (group_objs W ?g)"
        by (simp add: W(7))
    qed
    with ids have "shown_members (refresh_groups W) ?k = [client_ids]"
      by (simp add: W(4) W(6) W(7))
    then show ?thesis
      by (simp add: shown_members_cong [OF panel1])
  qed
  \<comment> \<open>the removal\<close>
  let ?r = "?f cid"
  have lookup: "get_client ?w1 s cid = Some ?r"
  proof -
    have "get_client ?w1 s cid = get_client W s cid"
      by (rule domain_view_get_client [OF view1])
    also have "\<dots> = get_client w s cid"
      by (rule get_client_same) (simp_all add: W)
    finally show ?thesis
      using connected member by auto
  qed
  have grouped: "group (client_objs W ?r) = Some ?g"
    using member by (simp add: W(5))
  have grouped1: "group (client_objs ?w1 ?r) = Some ?g"
    using grouped by (simp add: domain_viewD(4) [OF view1])
  have act1: "server ?w1 = Some s"
    by (simp add: domain_viewD(1) [OF view1] W(2))
  let ?U = "ungroup ?r W"
  let ?w2 = "remove_client_from_group None gid cid ?w1"
  have w2: "?w2 = refresh_groups (refresh_clients
               (log_event (''Removed '' @ cid @ '' from group'') ''info'' (ungroup ?r ?w1)))"
    by (simp add: remove_client_from_group_def act1 lookup grouped1 run_coroutine_def
        remove_coro_def remove_on_complete_def)
  have panel2: "groups_panel ?w2 = groups_panel (refresh_groups ?U)"
  proof -
    have "groups_panel ?w2 = groups_panel (refresh_groups (ungroup ?r ?w1))"
      unfolding w2 by (simp add: refresh_groups_panel_after)
    also have "\<dots> = groups_panel (refresh_groups ?U)"
      by (rule domain_view_refresh_groups_panel) (rule domain_view_ungroup [OF view1])
    finally show ?thesis .
  qed
  note U = ungroup_facts [OF grouped]
  have actU: "server ?U = Some s"
    by (simp add: U W(2))
  have others: "group_id (group_objs ?U g') \<noteq> ?k"
    if "c \<in> set (clients (servers ?U s))" "group (client_objs ?U c) = Some g'" "g' \<noteq> ?g" for c g'
  proof -
    from that have "c \<in> set (clients (servers w s))" "group (client_objs w c) = Some g'"
      by (auto simp: U W(3) W(5) split: if_splits)
    from old [OF this] that(3) show ?thesis
      by (simp add: U W(7))
  qed
  have removed: "map (\<lambda>c. client_id (client_objs ?U c)) (group_clients (group_objs ?U ?g)) =
                   filter (\<lambda>x. x \<noteq> cid) client_ids"
  proof -
    have "removeAll ?r ?rs = map ?f (filter (\<lambda>x. x \<noteq> cid) client_ids)"
    proof -
      have "(?f i \<noteq> ?r) = (i \<noteq> cid)" if "i \<in> set client_ids" for i
        using f_id [OF that] f_id [OF member] by metis
      then have "filter (\<lambda>i. ?f i \<noteq> ?r) client_ids = filter (\<lambda>x. x \<noteq> cid) client_ids"
        by (intro filter_cong) simp_all
      then show ?thesis
        by (simp add: removeAll_filter_not_eq filter_map comp_def eq_commute)
    qed
    moreover have "map (\<lambda>c. client_id (client_objs w c)) (map ?f (filter (\<lambda>x. x \<noteq> cid) client_ids))
                     = filter (\<lambda>x. x \<noteq> cid) client_ids"
      unfolding map_map comp_def by (rule map_idI) (simp add: f_id)
    ultimately show ?thesis
      by (simp add: U W(4) W(6))
  qed
  have second: "shown_members ?w2 ?k =
                  (if length client_ids = 1 then [] else [filter (\<lambda>x. x \<noteq> cid) client_ids])"
  proof (cases "length client_ids = 1")
    case True
    then have only: "client_ids = [cid]"
      using member by (cases client_ids) auto
    have "shown_members (refresh_groups ?U) ?k = []"
    proof (rule shown_members_none [OF actU])
      fix c g'
      assume c: "c \<in> set (clients (servers ?U s))" "group (client_objs ?U c) = Some g'"
      then have "c \<in> set (clients (servers w s))" "group (client_objs w c) = Some g'"
        using only by (auto simp: U W(3) W(5) split: if_splits)
      from old [OF this] have "g' \<noteq> ?g" ..
      with c others show "group_id (group_objs ?U g') \<noteq> ?k" by blast
    qed
    with True show ?thesis
      by (simp add: shown_members_cong [OF panel2])
  next
    case False
    have "\<exists>j \<in> set client_ids. j \<noteq> cid"
    proof (rule ccontr)
      assume "\<not> (\<exists>j \<in> set client_ids. j \<noteq> cid)"
      then have "set client_ids \<subseteq> {cid}"
        by blast
      moreover have "{cid} \<subseteq> set client_ids"
        using member by simp
      ultimately have "set client_ids = {cid}"
        by (rule equalityI)
      then have "card (set client_ids) = 1"
        by simp
      with dist have "length client_ids = 1"
        by (simp add: distinct_card)
      with False show False by simp
    qed
    then obtain j where j: "j \<in> set client_ids" "j \<noteq> cid"
      by blast
    have neq: "?f j \<noteq> ?r"
      using f_id [OF j(1)] f_id [OF member] j(2) by metis
    have "shown_members (refresh_groups ?U) (group_id (group_objs ?U ?g)) =
            [map (\<lambda>c. client_id (client_objs ?U c)) (group_clients (group_objs ?U ?g))]"
    proof (rule shown_members_of_group [OF actU, of "?f j"])
      show "?f j \<in> set (clients (servers ?U s))"
        using f_in [OF j(1)] by (simp add: U W(3))
      show "group (client_objs ?U (?f j)) = Some ?g"
        using j(1) neq by (simp add: U W(5))
    next
      fix c g'
      assume "c \<in> set (clients (servers ?U s))" "group (client_objs ?U c) = Some g'" "g' \<noteq> ?g"
      from others [OF this] show "group_id (group_objs ?U g') \<noteq> group_id (group_objs ?U ?g)"
        by (simp add: U W(7))
    qed
    moreover have "group_id (group_objs ?U ?g) = ?k"
      by (simp add: U W(7))
    ultimately have "shown_members (refresh_groups ?U) ?k = [filter (\<lambda>x. x \<noteq> cid) client_ids]"
      by (simp only: removed)
    with False show ?thesis
      by (simp add: shown_members_cong [OF panel2])
  qed
  from first second length_filter_others [OF dist member] show ?thesis
    by blast
qed

text \<open>The spec's scenario: \<^verbatim>\<open>c1\<close> and \<^verbatim>\<open>c2\<close> grouped as Kitchen, then \<^verbatim>\<open>c1\<close> removed.\<close>

theorem create_then_remove_members_kitchen:
  "shown_members (create_group no_failure [''c1'', ''c2''] ''Kitchen'' kitchen_world) ''group-3''
     = [[''c1'', ''c2'']]
   \<and> shown_members
       (remove_client_from_group None ''group-3'' ''c1''
          (create_group no_failure [''c1'', ''c2''] ''Kitchen'' kitchen_world)) ''group-3''
     = [[''c2'']]"
proof -
  have act: "server kitchen_world = Some 0"
    by (simp add: kitchen_world_def)
  have connected: "\<forall>cid \<in> set [''c1'', ''c2'']. get_client kitchen_world 0 cid \<noteq> None"
    by (simp add: get_client_def kitchen_world_def)
  have added: "\<forall>cid \<in> set [''c1'', ''c2'']. no_failure cid = None"
    by (simp add: no_failure_def)
  have none: "referenced_groups kitchen_world = []"
    by (simp add: referenced_groups_def server_clients_def kitchen_world_def map_filter_simps)
  have new_id: "group_id (group_template kitchen_world (next_ref kitchen_world)) = ''group-3''"
    by (simp add: kitchen_world_def)
  show ?thesis
    using create_then_remove_members [where w = kitchen_world and s = 0
        and client_ids = "[''c1'', ''c2'']" and add_result = no_failure and cid = "''c1''"
        and gid = "''group-3''" and gname = "''Kitchen''", OF act _ _ connected added]
    by (simp add: none new_id)
qed

text \<open>Claim C4 as stated fails twice.  An id the server has no client for is skipped, so
  two distinct ids can give one member; and removing the only member of a group leaves
  no entry for the group, rather than an entry with no members.\<close>

theorem create_group_members_counterexample:
  "map length (shown_members (create_group no_failure [''c1'', ''ghost''] ''Kitchen'' kitchen_world) ''group-3'')
     = [1]
   \<and> length [''c1'', ''ghost''] = 2
   \<and> shown_members (create_group no_failure [''c1''] ''Kitchen'' kitchen_world) ''group-3'' = [[''c1'']]
   \<and> shown_members
       (remove_client_from_group None ''group-3'' ''c1''
          (create_group no_failure [''c1''] ''Kitchen'' kitchen_world)) ''group-3''
     = []"
  by (simp add: shown_members_def create_group_def remove_client_from_group_def kitchen_world_def
      run_coroutine_def create_coro_def remove_coro_def remove_on_complete_def
      SendspinGroup_def group_add_event_listener_def get_client_def no_failure_def add_client_def ungroup_def
      create_on_complete_def log_event_def add_event_def refresh_clients_def refresh_groups_def
      client_add_event_listener_def update_clients_def update_groups_def group_dict_def client_dict_def
      blank_group_def blank_client_def blank_server_def Let_def)

section \<open>The stream panel: when the callback fires\<close>

text \<open>The case list of \<^verbatim>\<open>isspace\<close>, as ranges.\<close>

lemma low_controls: "(ch::nat) \<in> {0x09..0x0D} \<longleftrightarrow> ch = 9 \<or> ch = 10 \<or> ch = 11 \<or> ch = 12 \<or> ch = 13"
  by (simp only: atLeastAtMost_iff) arith

lemma separators: "(ch::nat) \<in> {0x1C..0x20} \<longleftrightarrow> ch = 28 \<or> ch = 29 \<or> ch = 30 \<or> ch = 31 \<or> ch = 32"
  by (simp only: atLeastAtMost_iff) arith

lemma quads: "(ch::nat) \<in> {0x2000..0x200A} \<longleftrightarrow>
    ch = 0x2000 \<or> ch = 0x2001 \<or> ch = 0x2002 \<or> ch = 0x2003 \<or> ch = 0x2004 \<or> ch = 0x2005 \<or>
    ch = 0x2006 \<or> ch = 0x2007 \<or> ch = 0x2008 \<or> ch = 0x2009 \<or> ch = 0x200A"
  by (simp only: atLeastAtMost_iff) arith

lemma isspace_iff:
  "isspace ch \<longleftrightarrow>
     ch \<in> {0x09..0x0D} \<union> {0x1C..0x20} \<union> {0x85, 0xA0, 0x1680} \<union> {0x2000..0x200A}
          \<union> {0x2028, 0x2029, 0x202F, 0x205F, 0x3000}"
  unfolding Un_iff low_controls separators quads isspace_def
  by (simp only: list.set insert_iff empty_iff) blast

text \<open>What \<^verbatim>\<open>strip\<close> returns is what is left of the text between a run of whitespace at
  the front and one at the back, and it neither starts nor ends with whitespace.\<close>

lemma strip_split: "\<exists>pre post. s = pre @ strip s @ post \<and> list_all isspace pre \<and> list_all isspace post"
proof -
  let ?a = "takeWhile isspace s"
  let ?m = "dropWhile isspace s"
  let ?b = "rev (takeWhile isspace (rev ?m))"
  have "?m = rev (takeWhile isspace (rev ?m) @ dropWhile isspace (rev ?m))"
    by (simp only: takeWhile_dropWhile_id rev_rev_ident)
  also have "\<dots> = strip s @ ?b"
    by (simp only: rev_append strip_def)
  finally have m: "?m = strip s @ ?b" .
  have "s = ?a @ ?m"
    by (simp only: takeWhile_dropWhile_id)
  then have "s = ?a @ strip s @ ?b"
    using m by (simp only:)
  moreover have "list_all isspace ?a"
    by (auto simp: list_all_iff dest: set_takeWhileD)
  moreover have "list_all isspace ?b"
    by (auto simp: list_all_iff dest: set_takeWhileD)
  ultimately show ?thesis by blast
qed

lemma last_dropWhile: "dropWhile P xs \<noteq> [] \<Longrightarrow> last (dropWhile P xs) = last xs"
  by (induction xs) auto

lemma strip_ends: "strip s = [] \<or> (\<not> isspace (hd (strip s)) \<and> \<not> isspace (last (strip s)))"
proof (cases "strip s = []")
  case True
  then show ?thesis by simp
next
  case False
  let ?m = "dropWhile isspace s"
  let ?r = "dropWhile isspace (rev ?m)"
  from False have r: "?r \<noteq> []" by (simp add: strip_def)
  then have "\<not> isspace (hd ?r)" by (rule hd_dropWhile)
  then have at_end: "\<not> isspace (last (strip s))"
    using r by (simp add: strip_def last_rev)
  have m: "?m \<noteq> []"
  proof
    assume e: "?m = []"
    have "?r = []" unfolding e by simp
    with r show False ..
  qed
  then have "\<not> isspace (hd ?m)" by (rule hd_dropWhile)
  moreover have "hd (strip s) = hd ?m"
    using r m by (simp add: strip_def hd_rev last_dropWhile last_rev)
  ultimately have "\<not> isspace (hd (strip s))" by simp
  with at_end show ?thesis by simp
qed

lemma strip_unchanged:
  assumes "s \<noteq> []" "\<not> isspace (hd s)" "\<not> isspace (last s)"
  shows "strip s = s"
proof -
  have front: "dropWhile isspace s = s"
    using assms(1,2) by (cases s) simp_all
  have "rev s \<noteq> []" "\<not> isspace (hd (rev s))"
    using assms(1,3) by (simp_all add: hd_rev)
  then have "dropWhile isspace (rev s) = rev s"
    by (cases "rev s") simp_all
  with front show ?thesis
    by (simp add: strip_def)
qed

text \<open>
  Claim C10, as amended.  Pressing the stream-file action calls the stream-file callback
  exactly when the trimmed file-path entry is non-empty and the existence check answers
  true for it, with the trimmed path as first argument and, as second, the trimmed
  target-group entry, or \<^verbatim>\<open>all\<close> when that entry is blank.  Nothing happens exactly when
  the trimmed path is empty or the check answers false.  When the check raises, the
  exception leaves the method and the callback is not called.  Trimming removes exactly
  the leading and trailing whitespace, and whitespace is the set of code points given
  last.
\<close>

theorem stream_file_outcomes:
  "(stream_file path_exists file_entry file_group_entry = Inr (Some (p, g))) =
     (p = strip file_entry \<and> p \<noteq> [] \<and> path_exists p = Inr True \<and>
      g = (if strip file_group_entry = [] then code_points ''all'' else strip file_group_entry))
   \<and> (stream_file path_exists file_entry file_group_entry = Inr None) =
     (strip file_entry = [] \<or> path_exists (strip file_entry) = Inr False)
   \<and> (stream_file path_exists file_entry file_group_entry = Inl e) =
     (strip file_entry \<noteq> [] \<and> path_exists (strip file_entry) = Inl e)
   \<and> (\<exists>pre post. s = pre @ strip s @ post \<and> list_all isspace pre \<and> list_all isspace post)
   \<and> (strip s = [] \<or> (\<not> isspace (hd (strip s)) \<and> \<not> isspace (last (strip s))))
   \<and> isspace ch =
       (ch \<in> {0x09..0x0D} \<union> {0x1C..0x20} \<union> {0x85, 0xA0, 0x1680} \<union> {0x2000..0x200A}
             \<union> {0x2028, 0x2029, 0x202F, 0x205F, 0x3000})"
proof -
  let ?r = "stream_file path_exists file_entry file_group_entry"
  let ?g = "if strip file_group_entry = [] then code_points ''all'' else strip file_group_entry"
  have fired: "(?r = Inr (Some (p, g))) =
                 (p = strip file_entry \<and> p \<noteq> [] \<and> path_exists p = Inr True \<and> g = ?g)"
    by (cases "path_exists (strip file_entry)") (auto simp: stream_file_def Let_def)
  have silent: "(?r = Inr None) = (strip file_entry = [] \<or> path_exists (strip file_entry) = Inr False)"
    by (cases "path_exists (strip file_entry)") (auto simp: stream_file_def Let_def)
  have raised: "(?r = Inl e) = (strip file_entry \<noteq> [] \<and> path_exists (strip file_entry) = Inl e)"
    by (cases "path_exists (strip file_entry)") (auto simp: stream_file_def Let_def)
  from fired silent raised strip_split [of s] strip_ends [of s] isspace_iff [of ch]
  show ?thesis by blast
qed

text \<open>A path padded with a no-break space, an em space and a space, and a group entry
  that is a lone next-line character.\<close>

theorem stream_file_outcomes_padded:
  "strip ([0xA0] @ code_points ''a.wav'' @ [0x2003, 0x20]) = code_points ''a.wav''
   \<and> strip [0x85] = []
   \<and> one_file_fs (code_points ''a.wav'') = Inr True
   \<and> stream_file one_file_fs ([0xA0] @ code_points ''a.wav'' @ [0x2003, 0x20]) [0x85]
       = Inr (Some (code_points ''a.wav'', code_points ''all''))"
proof -
  have path: "strip ([0xA0] @ code_points ''a.wav'' @ [0x2003, 0x20]) = code_points ''a.wav''"
    by (simp add: strip_def isspace_def code_points_def)
  have blank: "strip [0x85] = []"
    by (simp add: strip_def isspace_def)
  have found: "one_file_fs (code_points ''a.wav'') = Inr True"
    by (simp add: one_file_fs_def)
  have "code_points ''a.wav'' \<noteq> []"
    by (simp add: code_points_def)
  with path blank found
    stream_file_outcomes [where path_exists = one_file_fs
      and file_entry = "[0xA0] @ code_points ''a.wav'' @ [0x2003, 0x20]"
      and file_group_entry = "[0x85]" and p = "code_points ''a.wav''" and g = "code_points ''all''"]
  show ?thesis by simp
qed

text \<open>Claim C10 as stated fails: for a name of 300 letters the check raises, so the
  press is neither a call of the callback nor a silent return.\<close>

theorem stream_file_silent_counterexample:
  "strip (replicate 300 0x61) = replicate 300 0x61
   \<and> replicate 300 (0x61 :: nat) \<noteq> []
   \<and> long_name_fs (replicate 300 0x61) = Inl (Exn ''[Errno 36] File name too long'')
   \<and> stream_file long_name_fs (replicate 300 0x61) [] = Inl (Exn ''[Errno 36] File name too long'')
   \<and> stream_file long_name_fs (replicate 300 0x61) [] \<noteq> Inr None"
proof -
  have same: "strip (replicate 300 0x61) = replicate 300 0x61"
    by (rule strip_unchanged) (simp_all add: isspace_def)
  have nonempty: "replicate 300 (0x61 :: nat) \<noteq> []"
    by simp
  have raises: "long_name_fs (replicate 300 0x61) = Inl (Exn ''[Errno 36] File name too long'')"
    by (simp add: long_name_fs_def)
  have "stream_file long_name_fs (replicate 300 0x61) [] = Inl (Exn ''[Errno 36] File name too long'')"
    using nonempty by (simp add: stream_file_def Let_def same raises)
  with same nonempty raises show ?thesis by simp
qed

end
